theory Spec2Isabelle
  imports Complex_Main
begin

section \<open>The playback controller of \<open>public/js/player.js\<close>\<close>

text \<open>
  The class \<open>MusicPlayer\<close> owns one audio element, a queue of track descriptors and the
  mode flags. Its fields, the fields of the audio element it reads and writes, and the
  effects it has on the page (toasts, the \<open>trackChanged\<close> event, a few widgets) are the
  components of one record; every method is a function from the record to the record.

  JavaScript numbers are modelled as reals, with the values \<open>NaN\<close> and the two infinities
  added where the code can meet them (a duration, an argument of \<open>formatTime\<close>). Queue
  positions are integers.
\<close>

subsection \<open>Numbers and strings\<close>

datatype jsnum = NaN | Fin real | PosInf | NegInf

text \<open>\<open>a % b\<close> on integers and on finite numbers: the remainder of the division truncated
  towards zero, with the sign of \<open>a\<close>.\<close>

definition js_rem :: "int \<Rightarrow> int \<Rightarrow> int" where
  "js_rem a b = sgn a * (\<bar>a\<bar> mod \<bar>b\<bar>)"











subsection \<open>The controller's state\<close>

record track =
  track_id :: string
  title :: string
  artist :: string
  url :: string
  duration :: real

datatype repeat_mode = RepeatOff | RepeatAll | RepeatOne

text \<open>
  \<open>audio.play()\<close> returns a promise, and the method that awaits it is suspended until the
  promise settles. A suspended call is either \<open>play()\<close> on its own (line 133) or \<open>play()\<close>
  awaited by \<open>loadTrack\<close> (line 118), which has its own rest to run afterwards. The methods
  \<open>playNext\<close> and \<open>playPrevious\<close> await \<open>loadTrack\<close> as their last statement and add nothing.
\<close>

datatype awaiting = InPlay | InLoadTrack

datatype audio_call = CallLoad | CallPlay | CallPause

record player =
  currentTrack :: "track option"
  queue :: "track list"
  currentIndex :: int
  isPlaying :: bool
  isShuffled :: bool
  repeatMode :: repeat_mode
  volume :: real
  audio_src :: string
  audio_currentTime :: real
  audio_duration :: jsnum
  audio_volume :: real
  audio_calls :: "audio_call list"
  pending :: "awaiting list"
  toasts :: "(string \<times> string) list"
  dispatched :: "track option list"
  controls_enabled :: bool
  volumeSlider_value :: real

text \<open>
  \<open>audio_calls\<close> is the log of the calls \<open>load()\<close>, \<open>play()\<close> and \<open>pause()\<close> made on the
  element, \<open>pending\<close> the suspended calls in the order of their \<open>audio.play()\<close>, \<open>toasts\<close> the
  messages given to \<open>showToast\<close> with their type, \<open>dispatched\<close> the \<open>detail.track\<close> of every
  \<open>trackChanged\<close> event. Of the widgets, the record keeps the volume slider and the
  enabled state of the transport buttons; icons, titles and time labels are functions of
  the other fields and are left out, so \<open>updateNowPlaying\<close>, \<open>updatePlayPauseButton\<close>,
  \<open>updateVolumeIcon\<close>, \<open>updateProgress\<close> and \<open>updateDuration\<close> change nothing here.
\<close>

text \<open>The constructor, lines 8-42, followed by \<open>initializePlayer\<close>, lines 48-55, on an
  audio element that has no source yet.\<close>

definition initial :: player where
  "initial = \<lparr> currentTrack = None, queue = [], currentIndex = - 1, isPlaying = False,
     isShuffled = False, repeatMode = RepeatOff, volume = 0.8,
     audio_src = [], audio_currentTime = 0, audio_duration = NaN, audio_volume = 0.8,
     audio_calls = [], pending = [], toasts = [], dispatched = [],
     controls_enabled = False, volumeSlider_value = 0.8 * 100 \<rparr>"

definition showToast :: "string \<Rightarrow> string \<Rightarrow> player \<Rightarrow> player" where
  "showToast message type s = s\<lparr>toasts := toasts s @ [(message, type)]\<rparr>"

definition updateControlsState :: "bool \<Rightarrow> player \<Rightarrow> player" where
  "updateControlsState enabled s = s\<lparr>controls_enabled := enabled\<rparr>"

text \<open>Binding a source and calling \<open>load()\<close> puts the element back at position 0 with an
  unknown duration.\<close>

definition audio_load :: "string \<Rightarrow> player \<Rightarrow> player" where
  "audio_load src s = s\<lparr>audio_src := src, audio_currentTime := 0, audio_duration := NaN,
     audio_calls := audio_calls s @ [CallLoad]\<rparr>"

text \<open>\<open>await this.audio.play()\<close>: the call is made and the caller is suspended.\<close>

definition audio_play :: "awaiting \<Rightarrow> player \<Rightarrow> player" where
  "audio_play k s = s\<lparr>audio_calls := audio_calls s @ [CallPlay], pending := pending s @ [k]\<rparr>"

subsection \<open>Playback control\<close>

text \<open>\<open>play()\<close>, lines 131-140, up to its \<open>await\<close>, and the rest of it once the promise has
  settled: fulfilled (\<open>ok\<close>) or rejected.\<close>

definition play :: "player \<Rightarrow> player" where
  "play s = audio_play InPlay s"

definition play_resume :: "bool \<Rightarrow> player \<Rightarrow> player" where
  "play_resume ok s =
     (if ok then s\<lparr>isPlaying := True\<rparr>
      else showToast ''Error playing audio'' ''error'' s)"

definition pause :: "player \<Rightarrow> player" where
  "pause s = s\<lparr>audio_calls := audio_calls s @ [CallPause], isPlaying := False\<rparr>"

definition togglePlayPause :: "player \<Rightarrow> player" where
  "togglePlayPause s = (if isPlaying s then pause s else play s)"

text \<open>
  \<open>loadTrack(track, queue, startIndex)\<close>, lines 95-129, up to \<open>await this.play()\<close>. An
  array is truthy even when empty, so \<open>Some []\<close> takes the first branch. The rest of the
  method, run when the awaited \<open>play()\<close> has finished either way, dispatches the event with
  the track that is current at that moment.
\<close>

definition loadTrack :: "track \<Rightarrow> track list option \<Rightarrow> int \<Rightarrow> player \<Rightarrow> player" where
  "loadTrack track queue' startIndex s =
     (let s1 = (case queue' of
                  Some q \<Rightarrow> s\<lparr>queue := q, currentIndex := startIndex\<rparr>
                | None \<Rightarrow> s\<lparr>queue := [track], currentIndex := 0\<rparr>);
          s2 = s1\<lparr>currentTrack := Some track\<rparr>;
          s3 = audio_load (''http://localhost:3000'' @ url track) s2;
          s4 = updateControlsState True s3
      in audio_play InLoadTrack s4)"

definition loadTrack_resume :: "player \<Rightarrow> player" where
  "loadTrack_resume s = s\<lparr>dispatched := dispatched s @ [currentTrack s]\<rparr>"

text \<open>
  \<open>loadTrack(undefined, queue, startIndex)\<close>: what \<open>playNext\<close> and \<open>playPrevious\<close> run into
  when the index they computed is outside the queue. The queue, the index and
  \<open>currentTrack\<close> are assigned, then \<open>track.url\<close> raises a TypeError and the \<open>catch\<close> of
  line 125 reports it.
\<close>

definition loadTrack_undefined :: "track list \<Rightarrow> int \<Rightarrow> player \<Rightarrow> player" where
  "loadTrack_undefined q startIndex s =
     showToast ''Error loading track'' ''error''
       (s\<lparr>queue := q, currentIndex := startIndex, currentTrack := None\<rparr>)"

definition at_index :: "'a list \<Rightarrow> int \<Rightarrow> 'a option" where
  "at_index xs i = (if 0 \<le> i \<and> i < int (length xs) then Some (xs ! nat i) else None)"

text \<open>\<open>this.loadTrack(this.queue[this.currentIndex], this.queue, this.currentIndex)\<close>, the
  last statement of \<open>playNext\<close> and of \<open>playPrevious\<close>.\<close>

definition loadTrack_current :: "player \<Rightarrow> player" where
  "loadTrack_current s =
     (case at_index (queue s) (currentIndex s) of
        Some t \<Rightarrow> loadTrack t (Some (queue s)) (currentIndex s) s
      | None \<Rightarrow> loadTrack_undefined (queue s) (currentIndex s) s)"

text \<open>\<open>playNext()\<close>, lines 156-168. The argument \<open>random\<close> is the value of
  \<open>Math.random()\<close>, a number in \<open>[0, 1)\<close>, read only when shuffle is on.\<close>

definition playNext :: "real \<Rightarrow> player \<Rightarrow> player" where
  "playNext random s =
     (if length (queue s) = 0 then s
      else loadTrack_current
        (if isShuffled s
         then s\<lparr>currentIndex := \<lfloor>random * real (length (queue s))\<rfloor>\<rparr>
         else s\<lparr>currentIndex := js_rem (currentIndex s + 1) (int (length (queue s)))\<rparr>))"

text \<open>\<open>playPrevious()\<close>, lines 170-182.\<close>

definition playPrevious :: "player \<Rightarrow> player" where
  "playPrevious s =
     (if length (queue s) = 0 then s
      else if audio_currentTime s > 3 then s\<lparr>audio_currentTime := 0\<rparr>
      else loadTrack_current
        (s\<lparr>currentIndex :=
             js_rem (currentIndex s - 1 + int (length (queue s))) (int (length (queue s)))\<rparr>))"

text \<open>\<open>seek(percent)\<close>, lines 184-188. A duration of 0 or \<open>NaN\<close> is falsy. With an infinite
  duration the product is not finite and the assignment to \<open>currentTime\<close> raises, so the
  position stays.\<close>

definition seek :: "real \<Rightarrow> player \<Rightarrow> player" where
  "seek percent s =
     (case audio_duration s of
        Fin d \<Rightarrow> if d = 0 then s else s\<lparr>audio_currentTime := percent * d\<rparr>
      | _ \<Rightarrow> s)"

subsection \<open>Volume and modes\<close>

text \<open>\<open>setVolume(value)\<close>, lines 194-198, for a finite \<open>value\<close> (the slider's value over 100,
  or the sum the arrow keys compute); \<open>toggleMute()\<close>, lines 200-209.\<close>

definition setVolume :: "real \<Rightarrow> player \<Rightarrow> player" where
  "setVolume v s =
     (let s1 = s\<lparr>volume := max 0 (min 1 v)\<rparr>
      in s1\<lparr>audio_volume := volume s1\<rparr>)"

definition toggleMute :: "player \<Rightarrow> player" where
  "toggleMute s =
     (if audio_volume s > 0 then s\<lparr>audio_volume := 0, volumeSlider_value := 0\<rparr>
      else s\<lparr>audio_volume := volume s, volumeSlider_value := volume s * 100\<rparr>)"

definition toggleShuffle :: "player \<Rightarrow> player" where
  "toggleShuffle s =
     (let s1 = s\<lparr>isShuffled := \<not> isShuffled s\<rparr>
      in showToast (if isShuffled s1 then ''Shuffle enabled'' else ''Shuffle disabled'') ''info'' s1)"

fun next_mode :: "repeat_mode \<Rightarrow> repeat_mode" where
  "next_mode RepeatOff = RepeatAll"
| "next_mode RepeatAll = RepeatOne"
| "next_mode RepeatOne = RepeatOff"

fun mode_title :: "repeat_mode \<Rightarrow> string" where
  "mode_title RepeatOff = ''Repeat Off''"
| "mode_title RepeatAll = ''Repeat All''"
| "mode_title RepeatOne = ''Repeat One''"

definition cycleRepeatMode :: "player \<Rightarrow> player" where
  "cycleRepeatMode s =
     (let s1 = s\<lparr>repeatMode := next_mode (repeatMode s)\<rparr>
      in showToast (''Repeat: '' @ mode_title (repeatMode s1)) ''info'' s1)"

text \<open>\<open>handleTrackEnd()\<close>, lines 250-263, and \<open>handleAudioError\<close>, lines 421-425.\<close>

definition handleTrackEnd :: "real \<Rightarrow> player \<Rightarrow> player" where
  "handleTrackEnd random s =
     (if repeatMode s = RepeatOne then play (s\<lparr>audio_currentTime := 0\<rparr>)
      else if repeatMode s = RepeatAll \<or> currentIndex s < int (length (queue s)) - 1
        then playNext random s
      else (pause s)\<lparr>audio_currentTime := 0\<rparr>)"

definition handleAudioError :: "player \<Rightarrow> player" where
  "handleAudioError s = pause (showToast ''Error playing audio file'' ''error'' s)"

subsection \<open>Settling of a play request\<close>

text \<open>
  When the promise of the \<open>i\<close>-th suspended call settles, that call leaves the list and
  runs its rest: the rest of \<open>play()\<close>, then, for a call made inside \<open>loadTrack\<close>, the rest of
  \<open>loadTrack\<close>. The \<open>catch\<close> of \<open>play()\<close> handles the rejection, so \<open>loadTrack\<close> goes on in both
  cases. Both rests run before the next event is handled; they write different fields,
  so their order against the rests of other calls settling in the same turn does not
  show.
\<close>

definition remove_nth :: "nat \<Rightarrow> 'a list \<Rightarrow> 'a list" where
  "remove_nth i xs = take i xs @ drop (Suc i) xs"

definition playSettled :: "nat \<Rightarrow> bool \<Rightarrow> player \<Rightarrow> player" where
  "playSettled i ok s =
     (if i < length (pending s) then
        (let k = pending s ! i;
             s1 = play_resume ok (s\<lparr>pending := remove_nth i (pending s)\<rparr>)
         in case k of InPlay \<Rightarrow> s1 | InLoadTrack \<Rightarrow> loadTrack_resume s1)
      else s)"

subsection \<open>Keyboard shortcuts\<close>

text \<open>\<open>Math.min(duration, x)\<close> and the assignment to \<open>audio.currentTime\<close>, which raises
  for a value that is not finite and then leaves the position as it was.\<close>

fun js_min :: "jsnum \<Rightarrow> real \<Rightarrow> jsnum" where
  "js_min NaN x = NaN"
| "js_min (Fin d) x = Fin (min d x)"
| "js_min PosInf x = Fin x"
| "js_min NegInf x = NegInf"

fun set_currentTime :: "jsnum \<Rightarrow> player \<Rightarrow> player" where
  "set_currentTime (Fin x) s = s\<lparr>audio_currentTime := x\<rparr>"
| "set_currentTime _ s = s"

text \<open>\<open>handleKeyboard(e)\<close>, lines 362-407, with \<open>e.target.tagName\<close> and \<open>e.key\<close>.\<close>

definition handleKeyboard :: "string \<Rightarrow> string \<Rightarrow> real \<Rightarrow> player \<Rightarrow> player" where
  "handleKeyboard tagName key random s =
     (if tagName = ''INPUT'' \<or> tagName = ''TEXTAREA'' then s
      else if key = '' '' then togglePlayPause s
      else if key = ''ArrowLeft'' then s\<lparr>audio_currentTime := max 0 (audio_currentTime s - 5)\<rparr>
      else if key = ''ArrowRight''
        then set_currentTime (js_min (audio_duration s) (audio_currentTime s + 5)) s
      else if key = ''ArrowUp''
        then (let s1 = setVolume (min 1 (audio_volume s + 0.1)) s
              in s1\<lparr>volumeSlider_value := audio_volume s1 * 100\<rparr>)
      else if key = ''ArrowDown''
        then (let s1 = setVolume (max 0 (audio_volume s - 0.1)) s
              in s1\<lparr>volumeSlider_value := audio_volume s1 * 100\<rparr>)
      else if key = ''n'' then playNext random s
      else if key = ''p'' then playPrevious s
      else if key = ''s'' then toggleShuffle s
      else if key = ''r'' then cycleRepeatMode s
      else if key = ''m'' then toggleMute s
      else s)"

subsection \<open>Events\<close>

text \<open>
  Everything that can happen to the controller: a call of one of its operations (from a
  button, a slider or the page's script), a key, a notification of the audio element, the
  settling of a play request. \<open>TimeUpdate\<close> and \<open>LoadedMetadata\<close> carry the position and
  the duration the element has reached by itself. Events are handled one at a time.
\<close>

datatype event =
    LoadTrack track "track list option" int
  | Play
  | Pause
  | TogglePlayPause
  | PlayNext real
  | PlayPrevious
  | Seek real
  | SetVolume real
  | ToggleMute
  | ToggleShuffle
  | CycleRepeatMode
  | KeyDown string string real
  | TimeUpdate real
  | LoadedMetadata jsnum
  | Ended real
  | AudioError
  | PlaySettled nat bool

fun handle :: "event \<Rightarrow> player \<Rightarrow> player" where
  "handle (LoadTrack t q i) s = loadTrack t q i s"
| "handle Play s = play s"
| "handle Pause s = pause s"
| "handle TogglePlayPause s = togglePlayPause s"
| "handle (PlayNext r) s = playNext r s"
| "handle PlayPrevious s = playPrevious s"
| "handle (Seek p) s = seek p s"
| "handle (SetVolume v) s = setVolume v s"
| "handle ToggleMute s = toggleMute s"
| "handle ToggleShuffle s = toggleShuffle s"
| "handle CycleRepeatMode s = cycleRepeatMode s"
| "handle (KeyDown tag key r) s = handleKeyboard tag key r s"
| "handle (TimeUpdate t) s = s\<lparr>audio_currentTime := t\<rparr>"
| "handle (LoadedMetadata d) s = s\<lparr>audio_duration := d\<rparr>"
| "handle (Ended r) s = handleTrackEnd r s"
| "handle AudioError s = handleAudioError s"
| "handle (PlaySettled i ok) s = playSettled i ok s"

definition run :: "event list \<Rightarrow> player \<Rightarrow> player" where
  "run es s = fold handle es s"

text \<open>What the environment guarantees: \<open>Math.random()\<close> lies in \<open>[0, 1)\<close>, and a caller of
  \<open>loadTrack\<close> that passes a queue passes an index into it.\<close>

definition is_random :: "real \<Rightarrow> bool" where
  "is_random r = (0 \<le> r \<and> r < 1)"

fun event_ok :: "event \<Rightarrow> bool" where
  "event_ok (LoadTrack t (Some q) i) = (0 \<le> i \<and> i < int (length q))"
| "event_ok (PlayNext r) = is_random r"
| "event_ok (KeyDown tag key r) = is_random r"
| "event_ok (Ended r) = is_random r"
| "event_ok _ = True"

subsection \<open>Predicates of the specification\<close>

text \<open>The queue invariant: the index is \<open>-1\<close> or a position of the queue.\<close>

definition index_ok :: "player \<Rightarrow> bool" where
  "index_ok s = (currentIndex s = - 1 \<or> (0 \<le> currentIndex s \<and> currentIndex s < int (length (queue s))))"

text \<open>The states of the specification's state machine, read off the controller's
  fields.\<close>

datatype mode = Idle | LoadedPaused | LoadedPlaying

definition mode_of :: "player \<Rightarrow> mode" where
  "mode_of s = (if currentTrack s = None then Idle
                else if isPlaying s then LoadedPlaying else LoadedPaused)"

text \<open>The volume invariant: the element is silent or at the stored volume. The events
  that reach \<open>toggleMute\<close> are the click on the volume button and the key \<open>m\<close>.\<close>

definition volume_ok :: "player \<Rightarrow> bool" where
  "volume_ok s = (audio_volume s = 0 \<or> audio_volume s = volume s)"

fun is_toggleMute :: "event \<Rightarrow> bool" where
  "is_toggleMute ToggleMute = True"
| "is_toggleMute (KeyDown tag key r) = (tag \<noteq> ''INPUT'' \<and> tag \<noteq> ''TEXTAREA'' \<and> key = ''m'')"
| "is_toggleMute _ = False"

text \<open>The events that reach \<open>setVolume\<close>: the volume slider and the keys \<open>ArrowUp\<close> and
  \<open>ArrowDown\<close>.\<close>

fun sets_volume :: "event \<Rightarrow> bool" where
  "sets_volume (SetVolume v) = True"
| "sets_volume (KeyDown tag key r) =
     (tag \<noteq> ''INPUT'' \<and> tag \<noteq> ''TEXTAREA'' \<and> (key = ''ArrowUp'' \<or> key = ''ArrowDown''))"
| "sets_volume _ = False"

subsection \<open>Sample tracks\<close>

definition track_A :: track where
  "track_A = \<lparr>track_id = ''1'', title = ''A'', artist = ''X'', url = ''/uploads/a.mp3'', duration = 200\<rparr>"

definition track_B :: track where
  "track_B = \<lparr>track_id = ''2'', title = ''B'', artist = ''X'', url = ''/uploads/b.mp3'', duration = 180\<rparr>"

definition track_C :: track where
  "track_C = \<lparr>track_id = ''3'', title = ''C'', artist = ''Y'', url = ''/uploads/c.mp3'', duration = 95\<rparr>"

definition track_D :: track where
  "track_D = \<lparr>track_id = ''4'', title = ''D'', artist = ''Z'', url = ''/uploads/d.mp3'', duration = 0\<rparr>"

subsection \<open>Sample states\<close>

text \<open>The library's three tracks loaded as the queue, starting at the first.\<close>

definition queue_ABC :: player where
  "queue_ABC = loadTrack track_A (Some [track_A, track_B, track_C]) 0 initial"

text \<open>The same state once the element has played 42.5 seconds of the track.\<close>

definition queue_ABC_late :: player where
  "queue_ABC_late = handle (TimeUpdate 42.5) queue_ABC"

text \<open>A session: a queue is loaded at its second entry and starts to play; the user
  skips, turns shuffle on, a track ends, a play request fails, and so on.\<close>

definition sample_session :: "event list" where
  "sample_session =
     [LoadTrack track_B (Some [track_A, track_B, track_C]) 1, PlaySettled 0 True,
      PlayNext 0.5, ToggleShuffle, Ended 0.25, PlaySettled 1 False, SetVolume 0.3,
      KeyDown ''BODY'' ''p'' 0, CycleRepeatMode, PlayPrevious]"

text \<open>The last entry of the queue, playing.\<close>

definition last_of_ABC :: player where
  "last_of_ABC = run [LoadTrack track_C (Some [track_A, track_B, track_C]) 2, PlaySettled 0 True] initial"

text \<open>The volume set to one half, then muted.\<close>

definition muted_half :: player where
  "muted_half = run [SetVolume 0.5, ToggleMute] initial"

text \<open>Track A loaded on its own and playing.\<close>

definition playing_A :: player where
  "playing_A = run [LoadTrack track_A None 0, PlaySettled 0 True] initial"


section \<open>Time formatting\<close>








section \<open>Queue navigation\<close>

lemmas op_defs = loadTrack_def audio_load_def audio_play_def updateControlsState_def
  showToast_def loadTrack_undefined_def play_def pause_def

lemma js_rem_mod: "0 \<le> a \<Longrightarrow> js_rem a b = a mod \<bar>b\<bar>"
  by (cases "a = 0") (simp_all add: js_rem_def)

lemma js_rem_pos: "0 \<le> a \<Longrightarrow> 0 < b \<Longrightarrow> js_rem a b = a mod b"
  by (simp add: js_rem_mod)

lemma js_rem_one: "js_rem a 1 = 0"
  by (simp add: js_rem_def)

lemma loadTrack_current_in_range:
  assumes "0 \<le> currentIndex s" "currentIndex s < int (length (queue s))"
  shows "loadTrack_current s =
    loadTrack (queue s ! nat (currentIndex s)) (Some (queue s)) (currentIndex s) s"
  using assms by (simp add: loadTrack_current_def at_index_def)

lemma loadTrack_Some_fields:
  "queue (loadTrack t (Some q) i s) = q"
  "currentIndex (loadTrack t (Some q) i s) = i"
  by (simp_all add: op_defs)

lemma loadTrack_None_fields:
  "queue (loadTrack t None i s) = [t]"
  "currentIndex (loadTrack t None i s) = 0"
  by (simp_all add: op_defs)

lemma loadTrack_fields:
  "currentTrack (loadTrack t q i s) = Some t"
  "audio_src (loadTrack t q i s) = ''http://localhost:3000'' @ url t"
  "audio_currentTime (loadTrack t q i s) = 0"
  "audio_duration (loadTrack t q i s) = NaN"
  "pending (loadTrack t q i s) = pending s @ [InLoadTrack]"
  "controls_enabled (loadTrack t q i s) = True"
  "dispatched (loadTrack t q i s) = dispatched s"
  "toasts (loadTrack t q i s) = toasts s"
  "isPlaying (loadTrack t q i s) = isPlaying s"
  "isShuffled (loadTrack t q i s) = isShuffled s"
  "repeatMode (loadTrack t q i s) = repeatMode s"
  "volume (loadTrack t q i s) = volume s"
  "audio_volume (loadTrack t q i s) = audio_volume s"
  by (simp_all add: op_defs Let_def split: option.split)

lemma playNext_sequential:
  assumes "queue s \<noteq> []" "- 1 \<le> currentIndex s" "\<not> isShuffled s"
  shows "playNext r s =
    loadTrack (queue s ! nat ((currentIndex s + 1) mod int (length (queue s)))) (Some (queue s))
      ((currentIndex s + 1) mod int (length (queue s)))
      (s\<lparr>currentIndex := (currentIndex s + 1) mod int (length (queue s))\<rparr>)"
proof -
  let ?n = "int (length (queue s))"
  have n: "0 < ?n" using assms(1) by simp
  have r: "js_rem (currentIndex s + 1) ?n = (currentIndex s + 1) mod ?n"
    using assms(2) n by (intro js_rem_pos) simp_all
  have "0 \<le> (currentIndex s + 1) mod ?n" "(currentIndex s + 1) mod ?n < ?n"
    using n by simp_all
  then show ?thesis
    using assms(1,3) r by (simp add: playNext_def loadTrack_current_in_range)
qed

lemma playNext_sequential_fields:
  assumes "queue s \<noteq> []" "- 1 \<le> currentIndex s" "\<not> isShuffled s"
  shows "currentIndex (playNext r s) = (currentIndex s + 1) mod int (length (queue s))"
    and "queue (playNext r s) = queue s"
    and "isShuffled (playNext r s) = isShuffled s"
  by (simp_all add: playNext_sequential [OF assms] loadTrack_Some_fields loadTrack_fields)

lemma fold_playNext:
  assumes "queue s \<noteq> []" "0 \<le> currentIndex s" "currentIndex s < int (length (queue s))"
    "\<not> isShuffled s"
  shows "currentIndex (fold playNext rs s) = (currentIndex s + int (length rs)) mod int (length (queue s))
     \<and> queue (fold playNext rs s) = queue s \<and> \<not> isShuffled (fold playNext rs s)"
proof (induction rs rule: rev_induct)
  case Nil
  from assms show ?case by simp
next
  case (snoc r rs)
  let ?s = "fold playNext rs s"
  let ?n = "int (length (queue s))"
  from snoc have q: "queue ?s = queue s" and sh: "\<not> isShuffled ?s"
    and ix: "currentIndex ?s = (currentIndex s + int (length rs)) mod ?n"
    by simp_all
  have ne: "queue ?s \<noteq> []" using q assms(1) by simp
  have lo: "- 1 \<le> currentIndex ?s" using ix assms(1)
    by (simp add: order_trans [OF _ pos_mod_sign])
  have "currentIndex (playNext r ?s) = (currentIndex ?s + 1) mod ?n"
    using playNext_sequential_fields(1) [OF ne lo sh] q by simp
  also have "\<dots> = (currentIndex s + int (length (rs @ [r]))) mod ?n"
    unfolding ix by (simp add: mod_add_left_eq) (simp add: ac_simps)
  finally show ?case
    using playNext_sequential_fields(2,3) [OF ne lo sh] q sh by simp
qed


text \<open>
  C3. With shuffle off and the index inside a non-empty queue of length \<open>n\<close>, \<open>playNext()\<close>
  moves the index to \<open>(currentIndex + 1) mod n\<close> and loads the entry there (current track,
  source, position 0, a play request under way) while the queue keeps its contents; so
  any number of calls in a row walks the indices cyclically from wherever it starts. On an
  empty queue \<open>playNext()\<close> changes nothing.
\<close>

theorem playNext_cyclic:
  "(queue s = [] \<longrightarrow> playNext r s = s) \<and>
   (queue s \<noteq> [] \<and> 0 \<le> currentIndex s \<and> currentIndex s < int (length (queue s)) \<and>
    \<not> isShuffled s \<longrightarrow>
      currentIndex (playNext r s) = (currentIndex s + 1) mod int (length (queue s)) \<and>
      queue (playNext r s) = queue s \<and>
      currentTrack (playNext r s) = Some (queue s ! nat (currentIndex (playNext r s))) \<and>
      audio_src (playNext r s) =
        ''http://localhost:3000'' @ url (queue s ! nat (currentIndex (playNext r s))) \<and>
      audio_currentTime (playNext r s) = 0 \<and>
      pending (playNext r s) = pending s @ [InLoadTrack] \<and>
      (\<forall>rs. currentIndex (fold playNext rs s) =
              (currentIndex s + int (length rs)) mod int (length (queue s)) \<and>
            queue (fold playNext rs s) = queue s))"
proof (intro conjI impI)
  assume "queue s = []"
  then show "playNext r s = s" by (simp add: playNext_def)
next
  assume h: "queue s \<noteq> [] \<and> 0 \<le> currentIndex s \<and> currentIndex s < int (length (queue s)) \<and>
    \<not> isShuffled s"
  then have a: "queue s \<noteq> []" "- 1 \<le> currentIndex s" "\<not> isShuffled s" by simp_all
  note eq = playNext_sequential [OF a, of r]
  show ix: "currentIndex (playNext r s) = (currentIndex s + 1) mod int (length (queue s))"
    by (simp add: eq loadTrack_Some_fields)
  show "queue (playNext r s) = queue s"
    by (simp add: eq loadTrack_Some_fields)
  show "currentTrack (playNext r s) = Some (queue s ! nat (currentIndex (playNext r s)))"
    unfolding ix by (simp add: eq loadTrack_fields)
  show "audio_src (playNext r s) =
      ''http://localhost:3000'' @ url (queue s ! nat (currentIndex (playNext r s)))"
    unfolding ix by (simp add: eq loadTrack_fields)
  show "audio_currentTime (playNext r s) = 0"
    by (simp add: eq loadTrack_fields)
  show "pending (playNext r s) = pending s @ [InLoadTrack]"
    by (simp add: eq loadTrack_fields)
  show "\<forall>rs. currentIndex (fold playNext rs s) =
              (currentIndex s + int (length rs)) mod int (length (queue s)) \<and>
            queue (fold playNext rs s) = queue s"
    using fold_playNext [of s] h by blast
qed

lemma queue_ABC_fields:
  "queue queue_ABC = [track_A, track_B, track_C]" "currentIndex queue_ABC = 0"
  "isShuffled queue_ABC = False" "pending queue_ABC = [InLoadTrack]"
  by (simp_all add: queue_ABC_def loadTrack_Some_fields loadTrack_fields initial_def)

theorem playNext_cyclic_witness:
  "playNext 0 initial = initial \<and>
   currentIndex (playNext 0 queue_ABC) = 1 \<and>
   currentTrack (playNext 0 queue_ABC) = Some track_B \<and>
   currentIndex (fold playNext [0, 0] queue_ABC) = 2 \<and>
   currentIndex (fold playNext [0, 0, 0] queue_ABC) = 0 \<and>
   queue (fold playNext [0, 0, 0] queue_ABC) = [track_A, track_B, track_C]"
proof -
  have e: "queue initial = []" by (simp add: initial_def)
  have h: "queue queue_ABC \<noteq> [] \<and> 0 \<le> currentIndex queue_ABC \<and>
    currentIndex queue_ABC < int (length (queue queue_ABC)) \<and> \<not> isShuffled queue_ABC"
    by (simp add: queue_ABC_fields)
  from playNext_cyclic [of initial 0] e have 1: "playNext 0 initial = initial" by blast
  from playNext_cyclic [of queue_ABC 0] h have 2:
    "currentIndex (playNext 0 queue_ABC) = (currentIndex queue_ABC + 1) mod int (length (queue queue_ABC))"
    "currentTrack (playNext 0 queue_ABC) = Some (queue queue_ABC ! nat (currentIndex (playNext 0 queue_ABC)))"
    "\<forall>rs. currentIndex (fold playNext rs queue_ABC) =
              (currentIndex queue_ABC + int (length rs)) mod int (length (queue queue_ABC)) \<and>
            queue (fold playNext rs queue_ABC) = queue queue_ABC"
    by blast+
  from 2(1) have 3: "currentIndex (playNext 0 queue_ABC) = 1" by (simp add: queue_ABC_fields)
  from 2(2) have 4: "currentTrack (playNext 0 queue_ABC) = Some track_B"
    unfolding 3 by (simp add: queue_ABC_fields)
  from 2(3) [rule_format, of "[0, 0]"] have 5: "currentIndex (fold playNext [0, 0] queue_ABC) = 2"
    by (simp add: queue_ABC_fields)
  from 2(3) [rule_format, of "[0, 0, 0]"] have 6:
    "currentIndex (fold playNext [0, 0, 0] queue_ABC) = 0"
    "queue (fold playNext [0, 0, 0] queue_ABC) = [track_A, track_B, track_C]"
    by (simp_all add: queue_ABC_fields)
  from 1 3 4 5 6 show ?thesis by blast
qed

lemma playPrevious_back:
  assumes "queue s \<noteq> []" "audio_currentTime s \<le> 3" "- 1 \<le> currentIndex s"
  shows "playPrevious s =
    loadTrack (queue s ! nat ((currentIndex s - 1 + int (length (queue s))) mod int (length (queue s))))
      (Some (queue s))
      ((currentIndex s - 1 + int (length (queue s))) mod int (length (queue s)))
      (s\<lparr>currentIndex := (currentIndex s - 1 + int (length (queue s))) mod int (length (queue s))\<rparr>)"
proof -
  let ?n = "int (length (queue s))"
  let ?a = "currentIndex s - 1 + ?n"
  have n: "0 < ?n" using assms(1) by simp
  have r: "js_rem ?a ?n = ?a mod ?n"
  proof (cases "?n = 1")
    case True
    then show ?thesis by (simp add: js_rem_one)
  next
    case False
    with n assms(3) have "0 \<le> ?a" by linarith
    then show ?thesis using n by (intro js_rem_pos)
  qed
  have "0 \<le> ?a mod ?n" "?a mod ?n < ?n"
    using n by simp_all
  then show ?thesis
    using assms(1,2) r by (simp add: playPrevious_def loadTrack_current_in_range)
qed

text \<open>
  C4. On a non-empty queue, \<open>playPrevious()\<close> after more than 3 seconds of the current
  track only puts the position back to 0: index, current track and queue stay. With 3
  seconds or less elapsed it moves the index to
  \<open>(currentIndex - 1 + queue.length) mod queue.length\<close> and loads that entry, the queue
  keeping its contents. On an empty queue it changes nothing.
\<close>

theorem playPrevious_restart_or_back:
  "(queue s = [] \<longrightarrow> playPrevious s = s) \<and>
   (queue s \<noteq> [] \<and> audio_currentTime s > 3 \<longrightarrow>
      playPrevious s = s\<lparr>audio_currentTime := 0\<rparr>) \<and>
   (queue s \<noteq> [] \<and> audio_currentTime s \<le> 3 \<and> - 1 \<le> currentIndex s \<longrightarrow>
      currentIndex (playPrevious s) =
        (currentIndex s - 1 + int (length (queue s))) mod int (length (queue s)) \<and>
      queue (playPrevious s) = queue s \<and>
      currentTrack (playPrevious s) = Some (queue s ! nat (currentIndex (playPrevious s))) \<and>
      audio_src (playPrevious s) =
        ''http://localhost:3000'' @ url (queue s ! nat (currentIndex (playPrevious s))) \<and>
      audio_currentTime (playPrevious s) = 0 \<and>
      pending (playPrevious s) = pending s @ [InLoadTrack])"
proof (intro conjI impI)
  assume "queue s = []"
  then show "playPrevious s = s" by (simp add: playPrevious_def)
next
  assume "queue s \<noteq> [] \<and> audio_currentTime s > 3"
  then show "playPrevious s = s\<lparr>audio_currentTime := 0\<rparr>" by (simp add: playPrevious_def)
next
  assume "queue s \<noteq> [] \<and> audio_currentTime s \<le> 3 \<and> - 1 \<le> currentIndex s"
  then have a: "queue s \<noteq> []" "audio_currentTime s \<le> 3" "- 1 \<le> currentIndex s" by simp_all
  note eq = playPrevious_back [OF a]
  show ix: "currentIndex (playPrevious s) =
      (currentIndex s - 1 + int (length (queue s))) mod int (length (queue s))"
    by (simp add: eq loadTrack_Some_fields)
  show "queue (playPrevious s) = queue s"
    by (simp add: eq loadTrack_Some_fields)
  show "currentTrack (playPrevious s) = Some (queue s ! nat (currentIndex (playPrevious s)))"
    unfolding ix by (simp add: eq loadTrack_fields)
  show "audio_src (playPrevious s) =
      ''http://localhost:3000'' @ url (queue s ! nat (currentIndex (playPrevious s)))"
    unfolding ix by (simp add: eq loadTrack_fields)
  show "audio_currentTime (playPrevious s) = 0"
    by (simp add: eq loadTrack_fields)
  show "pending (playPrevious s) = pending s @ [InLoadTrack]"
    by (simp add: eq loadTrack_fields)
qed

lemma queue_ABC_time: "audio_currentTime queue_ABC = 0"
  by (simp add: queue_ABC_def loadTrack_fields)

lemma queue_ABC_late_fields:
  "queue queue_ABC_late = [track_A, track_B, track_C]" "currentIndex queue_ABC_late = 0"
  "audio_currentTime queue_ABC_late = 42.5" 
  by (simp_all add: queue_ABC_late_def queue_ABC_fields)

theorem playPrevious_restart_or_back_witness:
  "playPrevious initial = initial \<and>
   playPrevious queue_ABC_late = queue_ABC_late\<lparr>audio_currentTime := 0\<rparr> \<and>
   currentIndex (playPrevious queue_ABC) = 2 \<and>
   currentTrack (playPrevious queue_ABC) = Some track_C \<and>
   queue (playPrevious queue_ABC) = [track_A, track_B, track_C]"
proof -
  have e: "queue initial = []" by (simp add: initial_def)
  have l: "queue queue_ABC_late \<noteq> [] \<and> audio_currentTime queue_ABC_late > 3"
    by (simp add: queue_ABC_late_fields)
  have h: "queue queue_ABC \<noteq> [] \<and> audio_currentTime queue_ABC \<le> 3 \<and> - 1 \<le> currentIndex queue_ABC"
    by (simp add: queue_ABC_fields queue_ABC_time)
  from playPrevious_restart_or_back [of initial] e have 1: "playPrevious initial = initial"
    by blast
  from playPrevious_restart_or_back [of queue_ABC_late] l
  have 2: "playPrevious queue_ABC_late = queue_ABC_late\<lparr>audio_currentTime := 0\<rparr>"
    by blast
  from playPrevious_restart_or_back [of queue_ABC] h have 3:
    "currentIndex (playPrevious queue_ABC) =
       (currentIndex queue_ABC - 1 + int (length (queue queue_ABC))) mod int (length (queue queue_ABC))"
    "queue (playPrevious queue_ABC) = queue queue_ABC"
    "currentTrack (playPrevious queue_ABC) = Some (queue queue_ABC ! nat (currentIndex (playPrevious queue_ABC)))"
    by blast+
  from 3(1) have 4: "currentIndex (playPrevious queue_ABC) = 2" by (simp add: queue_ABC_fields)
  from 3(3) have 5: "currentTrack (playPrevious queue_ABC) = Some track_C"
    unfolding 4 by (simp add: queue_ABC_fields)
  from 3(2) have 6: "queue (playPrevious queue_ABC) = [track_A, track_B, track_C]"
    by (simp add: queue_ABC_fields)
  from 1 2 4 5 6 show ?thesis by blast
qed

lemma playSettled_fields:
  "currentTrack (playSettled i ok s) = currentTrack s"
  "queue (playSettled i ok s) = queue s"
  "currentIndex (playSettled i ok s) = currentIndex s"
  "audio_src (playSettled i ok s) = audio_src s"
  "audio_currentTime (playSettled i ok s) = audio_currentTime s"
  "audio_volume (playSettled i ok s) = audio_volume s"
  "volume (playSettled i ok s) = volume s"
  "controls_enabled (playSettled i ok s) = controls_enabled s"
  "isShuffled (playSettled i ok s) = isShuffled s"
  "repeatMode (playSettled i ok s) = repeatMode s"
  by (simp_all add: playSettled_def play_resume_def loadTrack_resume_def showToast_def Let_def
      split: awaiting.split)

section \<open>The queue invariant and the end of a track\<close>

lemma index_ok_cong:
  "queue s' = queue s \<Longrightarrow> currentIndex s' = currentIndex s \<Longrightarrow> index_ok s' = index_ok s"
  by (simp add: index_ok_def)

lemma index_ok_loadTrack:
  assumes "event_ok (LoadTrack t q i)"
  shows "index_ok (loadTrack t q i s)"
proof (cases q)
  case None
  then show ?thesis by (simp add: index_ok_def loadTrack_None_fields)
next
  case (Some q')
  with assms show ?thesis by (simp add: index_ok_def loadTrack_Some_fields)
qed

lemma index_ok_loadTrack_current:
  assumes "0 \<le> i" "i < int (length (queue s))"
  shows "index_ok (loadTrack_current (s\<lparr>currentIndex := i\<rparr>))"
  using assms by (simp add: loadTrack_current_in_range index_ok_def loadTrack_Some_fields)

lemma random_index:
  assumes "is_random r" "xs \<noteq> []"
  shows "0 \<le> \<lfloor>r * real (length xs)\<rfloor>" "\<lfloor>r * real (length xs)\<rfloor> < int (length xs)"
proof -
  have n: "0 < real (length xs)" using assms(2) by simp
  from assms(1) have "0 \<le> r * real (length xs)" by (simp add: is_random_def)
  then show "0 \<le> \<lfloor>r * real (length xs)\<rfloor>" by simp
  from assms(1) n have "r * real (length xs) < real (length xs)" by (simp add: is_random_def)
  then show "\<lfloor>r * real (length xs)\<rfloor> < int (length xs)" by (simp add: floor_less_iff)
qed

lemma index_ok_playNext:
  assumes "index_ok s" "is_random r"
  shows "index_ok (playNext r s)"
proof (cases "queue s = []")
  case True
  with assms show ?thesis by (simp add: playNext_def)
next
  case False
  let ?n = "int (length (queue s))"
  have n: "0 < ?n" using False by simp
  show ?thesis
  proof (cases "isShuffled s")
    case True
    with False random_index [OF assms(2) False] show ?thesis
      by (simp add: playNext_def index_ok_loadTrack_current)
  next
    case nsh: False
    from assms(1) have "0 \<le> currentIndex s + 1" by (auto simp: index_ok_def)
    then have "js_rem (currentIndex s + 1) ?n = (currentIndex s + 1) mod ?n"
      using n by (intro js_rem_pos)
    moreover have "0 \<le> (currentIndex s + 1) mod ?n" "(currentIndex s + 1) mod ?n < ?n"
      using n by simp_all
    ultimately show ?thesis using False nsh
      by (simp add: playNext_def index_ok_loadTrack_current)
  qed
qed

lemma index_ok_playPrevious:
  assumes "index_ok s"
  shows "index_ok (playPrevious s)"
proof (cases "queue s = [] \<or> audio_currentTime s > 3")
  case True
  with assms show ?thesis by (auto simp: playPrevious_def index_ok_def)
next
  case False
  then have a: "queue s \<noteq> []" "audio_currentTime s \<le> 3" by simp_all
  from assms have b: "- 1 \<le> currentIndex s" by (auto simp: index_ok_def)
  have "0 < int (length (queue s))" using a(1) by simp
  then show ?thesis
    by (simp add: playPrevious_back [OF a b] index_ok_def loadTrack_Some_fields)
qed

lemma index_ok_handleTrackEnd:
  assumes "index_ok s" "is_random r"
  shows "index_ok (handleTrackEnd r s)"
proof -
  have "index_ok (play (s\<lparr>audio_currentTime := 0\<rparr>))" "index_ok ((pause s)\<lparr>audio_currentTime := 0\<rparr>)"
    using assms(1) by (simp_all add: index_ok_def op_defs)
  with index_ok_playNext [OF assms] show ?thesis
    by (simp add: handleTrackEnd_def)
qed

lemma index_ok_handleKeyboard:
  assumes "index_ok s" "is_random r"
  shows "index_ok (handleKeyboard tag key r s)"
proof -
  have a: "index_ok (togglePlayPause s)" "index_ok (toggleShuffle s)"
    "index_ok (cycleRepeatMode s)" "index_ok (toggleMute s)"
    "\<And>v t. index_ok ((setVolume v s)\<lparr>volumeSlider_value := t\<rparr>)"
    using assms(1)
    by (simp_all add: index_ok_def togglePlayPause_def toggleShuffle_def cycleRepeatMode_def
        toggleMute_def setVolume_def op_defs Let_def)
  have c: "index_ok (set_currentTime t s)" for t
    using assms(1) by (cases t) (simp_all add: index_ok_def)
  have b: "\<And>t. index_ok (s\<lparr>audio_currentTime := t\<rparr>)"
    using assms(1) by (simp add: index_ok_def)
  show ?thesis
    unfolding handleKeyboard_def Let_def
    using a b c index_ok_playNext [OF assms] index_ok_playPrevious [OF assms(1)] assms(1)
    by (simp only: if_split) blast
qed

lemma index_ok_handle:
  assumes "index_ok s" "event_ok e"
  shows "index_ok (handle e s)"
proof (cases e)
  case (LoadTrack t q i)
  with assms(2) show ?thesis by (simp add: index_ok_loadTrack del: event_ok.simps)
next
  case (PlayNext r)
  with assms show ?thesis by (simp add: index_ok_playNext)
next
  case PlayPrevious
  with assms show ?thesis by (simp add: index_ok_playPrevious)
next
  case (KeyDown tag key r)
  with assms show ?thesis by (simp add: index_ok_handleKeyboard)
next
  case (Ended r)
  with assms show ?thesis by (simp add: index_ok_handleTrackEnd)
next
  case (PlaySettled i ok)
  with assms show ?thesis by (simp add: index_ok_def playSettled_fields)
next
  case (Seek p)
  with assms show ?thesis by (simp add: index_ok_def seek_def split: jsnum.split)
qed (use assms in \<open>simp_all add: index_ok_def togglePlayPause_def toggleShuffle_def
    cycleRepeatMode_def toggleMute_def setVolume_def handleAudioError_def op_defs Let_def\<close>)

lemma index_ok_run:
  assumes "index_ok s" "\<forall>e\<in>set es. event_ok e"
  shows "index_ok (run es s)"
  using assms unfolding run_def
  by (induction es arbitrary: s) (simp_all add: index_ok_handle)

text \<open>
  C7. The index is \<open>-1\<close> or a position of the queue: this holds in the initial state and
  every event keeps it (\<open>loadTrack\<close> with an index into the queue it is given, \<open>playNext\<close>,
  \<open>playPrevious\<close>, the end of a track, the keys, and the mode and volume operations), hence
  it holds after any sequence of events.
\<close>

theorem index_invariant:
  "index_ok initial \<and>
   (index_ok s \<and> event_ok e \<longrightarrow> index_ok (handle e s)) \<and>
   ((\<forall>e\<in>set es. event_ok e) \<longrightarrow> index_ok (run es initial))"
proof -
  have i: "index_ok initial" by (simp add: index_ok_def initial_def)
  from i index_ok_handle index_ok_run show ?thesis by blast
qed

theorem index_invariant_witness:
  "index_ok (run sample_session initial) \<and>
   index_ok (handle (PlayNext 0.5) queue_ABC)"
proof -
  have a: "\<forall>e\<in>set sample_session. event_ok e"
    by (simp add: sample_session_def is_random_def)
  have b: "index_ok queue_ABC \<and> event_ok (PlayNext 0.5)"
    by (simp add: index_ok_def queue_ABC_fields is_random_def)
  from index_invariant [of queue_ABC "PlayNext 0.5" sample_session] a b show ?thesis
    by blast
qed

text \<open>
  C5. When a track ends: with repeat one, the position goes to 0 and \<open>play()\<close> is called,
  and the index never changes, also not when that request settles; with repeat all, or
  with the index before the last position, it is \<open>playNext()\<close>; with repeat off at the last
  position, the controller pauses and the position goes to 0, index, track and queue
  staying. In no case does the index leave the queue.
\<close>

theorem handleTrackEnd_policy:
  "(repeatMode s = RepeatOne \<longrightarrow>
      handleTrackEnd r s = play (s\<lparr>audio_currentTime := 0\<rparr>) \<and>
      currentIndex (handleTrackEnd r s) = currentIndex s \<and>
      queue (handleTrackEnd r s) = queue s \<and>
      currentTrack (handleTrackEnd r s) = currentTrack s \<and>
      audio_src (handleTrackEnd r s) = audio_src s \<and>
      audio_currentTime (handleTrackEnd r s) = 0 \<and>
      audio_calls (handleTrackEnd r s) = audio_calls s @ [CallPlay] \<and>
      pending (handleTrackEnd r s) = pending s @ [InPlay] \<and>
      currentIndex (playSettled (length (pending s)) ok (handleTrackEnd r s)) = currentIndex s) \<and>
   (repeatMode s \<noteq> RepeatOne \<and>
    (repeatMode s = RepeatAll \<or> currentIndex s < int (length (queue s)) - 1) \<longrightarrow>
      handleTrackEnd r s = playNext r s) \<and>
   (repeatMode s = RepeatOff \<and> int (length (queue s)) - 1 \<le> currentIndex s \<longrightarrow>
      handleTrackEnd r s = (pause s)\<lparr>audio_currentTime := 0\<rparr> \<and>
      isPlaying (handleTrackEnd r s) = False \<and>
      audio_calls (handleTrackEnd r s) = audio_calls s @ [CallPause] \<and>
      audio_currentTime (handleTrackEnd r s) = 0 \<and>
      currentIndex (handleTrackEnd r s) = currentIndex s \<and>
      queue (handleTrackEnd r s) = queue s \<and>
      currentTrack (handleTrackEnd r s) = currentTrack s \<and>
      pending (handleTrackEnd r s) = pending s) \<and>
   (index_ok s \<and> is_random r \<longrightarrow>
      currentIndex (handleTrackEnd r s) < int (length (queue (handleTrackEnd r s))))"
proof (intro conjI impI)
  assume one: "repeatMode s = RepeatOne"
  then show eq: "handleTrackEnd r s = play (s\<lparr>audio_currentTime := 0\<rparr>)"
    by (simp add: handleTrackEnd_def)
  show "currentIndex (handleTrackEnd r s) = currentIndex s"
    "queue (handleTrackEnd r s) = queue s"
    "currentTrack (handleTrackEnd r s) = currentTrack s"
    "audio_src (handleTrackEnd r s) = audio_src s"
    "audio_currentTime (handleTrackEnd r s) = 0"
    "audio_calls (handleTrackEnd r s) = audio_calls s @ [CallPlay]"
    "pending (handleTrackEnd r s) = pending s @ [InPlay]"
    unfolding eq by (simp_all add: op_defs)
  show "currentIndex (playSettled (length (pending s)) ok (handleTrackEnd r s)) = currentIndex s"
    unfolding eq by (simp add: playSettled_fields) (simp add: op_defs)
next
  assume "repeatMode s \<noteq> RepeatOne \<and>
    (repeatMode s = RepeatAll \<or> currentIndex s < int (length (queue s)) - 1)"
  then show "handleTrackEnd r s = playNext r s"
    by (auto simp: handleTrackEnd_def)
next
  assume "repeatMode s = RepeatOff \<and> int (length (queue s)) - 1 \<le> currentIndex s"
  then show eq: "handleTrackEnd r s = (pause s)\<lparr>audio_currentTime := 0\<rparr>"
    by (simp add: handleTrackEnd_def)
  show "isPlaying (handleTrackEnd r s) = False"
    "audio_calls (handleTrackEnd r s) = audio_calls s @ [CallPause]"
    "audio_currentTime (handleTrackEnd r s) = 0"
    "currentIndex (handleTrackEnd r s) = currentIndex s"
    "queue (handleTrackEnd r s) = queue s"
    "currentTrack (handleTrackEnd r s) = currentTrack s"
    "pending (handleTrackEnd r s) = pending s"
    unfolding eq by (simp_all add: op_defs)
next
  assume "index_ok s \<and> is_random r"
  then have "index_ok (handleTrackEnd r s)" by (simp add: index_ok_handleTrackEnd)
  then show "currentIndex (handleTrackEnd r s) < int (length (queue (handleTrackEnd r s)))"
    by (auto simp: index_ok_def)
qed

lemma last_of_ABC_fields:
  "queue last_of_ABC = [track_A, track_B, track_C]" "currentIndex last_of_ABC = 2"
  "repeatMode last_of_ABC = RepeatOff" "isPlaying last_of_ABC = True"
  "currentTrack last_of_ABC = Some track_C" "isShuffled last_of_ABC = False"
  by (simp_all add: last_of_ABC_def run_def playSettled_def play_resume_def loadTrack_resume_def
      remove_nth_def op_defs initial_def)

theorem handleTrackEnd_policy_witness:
  "currentIndex (handleTrackEnd 0 (last_of_ABC\<lparr>repeatMode := RepeatOne\<rparr>)) = 2 \<and>
   currentIndex (handleTrackEnd 0 (last_of_ABC\<lparr>repeatMode := RepeatAll\<rparr>)) = 0 \<and>
   currentIndex (handleTrackEnd 0 queue_ABC) = 1 \<and>
   currentIndex (handleTrackEnd 0 last_of_ABC) = 2 \<and>
   isPlaying (handleTrackEnd 0 last_of_ABC) = False \<and>
   audio_currentTime (handleTrackEnd 0 last_of_ABC) = 0"
proof -
  let ?one = "last_of_ABC\<lparr>repeatMode := RepeatOne\<rparr>"
  let ?all = "last_of_ABC\<lparr>repeatMode := RepeatAll\<rparr>"
  have h1: "repeatMode ?one = RepeatOne" by simp
  have h2: "repeatMode ?all \<noteq> RepeatOne \<and>
    (repeatMode ?all = RepeatAll \<or> currentIndex ?all < int (length (queue ?all)) - 1)"
    by simp
  have h3: "repeatMode queue_ABC \<noteq> RepeatOne \<and>
    (repeatMode queue_ABC = RepeatAll \<or> currentIndex queue_ABC < int (length (queue queue_ABC)) - 1)"
    by (simp add: queue_ABC_fields) (simp add: queue_ABC_def loadTrack_fields initial_def)
  have h4: "repeatMode last_of_ABC = RepeatOff \<and>
    int (length (queue last_of_ABC)) - 1 \<le> currentIndex last_of_ABC"
    by (simp add: last_of_ABC_fields)
  have h5: "index_ok last_of_ABC \<and> is_random 0"
    by (simp add: index_ok_def last_of_ABC_fields is_random_def)
  from handleTrackEnd_policy [of ?one 0] h1
  have 1: "currentIndex (handleTrackEnd 0 ?one) = currentIndex ?one" by blast
  from handleTrackEnd_policy [of ?all 0] h2
  have 2: "handleTrackEnd 0 ?all = playNext 0 ?all" by blast
  from handleTrackEnd_policy [of queue_ABC 0] h3
  have 3: "handleTrackEnd 0 queue_ABC = playNext 0 queue_ABC" by blast
  from handleTrackEnd_policy [of last_of_ABC 0] h4 h5
  have 4: "currentIndex (handleTrackEnd 0 last_of_ABC) = currentIndex last_of_ABC"
    "isPlaying (handleTrackEnd 0 last_of_ABC) = False"
    "audio_currentTime (handleTrackEnd 0 last_of_ABC) = 0"
    "currentIndex (handleTrackEnd 0 last_of_ABC) < int (length (queue (handleTrackEnd 0 last_of_ABC)))"
    by blast+
  have q: "queue ?all \<noteq> []" "- 1 \<le> currentIndex ?all" "\<not> isShuffled ?all"
    by (simp_all add: last_of_ABC_fields)
  have q': "queue queue_ABC \<noteq> []" "- 1 \<le> currentIndex queue_ABC" "\<not> isShuffled queue_ABC"
    by (simp_all add: queue_ABC_fields)
  have 5: "currentIndex (handleTrackEnd 0 ?all) = 0"
    unfolding 2 by (simp add: playNext_sequential_fields(1) [OF q] last_of_ABC_fields)
  have 6: "currentIndex (handleTrackEnd 0 queue_ABC) = 1"
    unfolding 3 by (simp add: playNext_sequential_fields(1) [OF q'] queue_ABC_fields)
  from 1 4 5 6 show ?thesis by (simp add: last_of_ABC_fields)
qed

section \<open>Volume\<close>

lemma loadTrack_current_volume:
  "volume (loadTrack_current s) = volume s" "audio_volume (loadTrack_current s) = audio_volume s"
  by (simp_all add: loadTrack_current_def loadTrack_fields split: option.split)
     (simp_all add: op_defs)

lemma playNext_volume:
  "volume (playNext r s) = volume s" "audio_volume (playNext r s) = audio_volume s"
  by (simp_all add: playNext_def loadTrack_current_volume)

lemma playPrevious_volume:
  "volume (playPrevious s) = volume s" "audio_volume (playPrevious s) = audio_volume s"
  by (simp_all add: playPrevious_def loadTrack_current_volume)

lemma handleTrackEnd_volume:
  "volume (handleTrackEnd r s) = volume s" "audio_volume (handleTrackEnd r s) = audio_volume s"
  by (simp_all add: handleTrackEnd_def playNext_volume) (simp_all add: op_defs)

lemma set_currentTime_volume:
  "volume (set_currentTime t s) = volume s" "audio_volume (set_currentTime t s) = audio_volume s"
  by (cases t; simp)+

lemma togglePlayPause_volume:
  "volume (togglePlayPause s) = volume s" "audio_volume (togglePlayPause s) = audio_volume s"
  by (simp_all add: togglePlayPause_def op_defs)

lemma modes_volume:
  "volume (toggleShuffle s) = volume s" "audio_volume (toggleShuffle s) = audio_volume s"
  "volume (cycleRepeatMode s) = volume s" "audio_volume (cycleRepeatMode s) = audio_volume s"
  by (simp_all add: toggleShuffle_def cycleRepeatMode_def showToast_def Let_def)

lemma setVolume_fields:
  "volume (setVolume v s) = max 0 (min 1 v)" "audio_volume (setVolume v s) = max 0 (min 1 v)"
  by (simp_all add: setVolume_def Let_def)

lemma toggleMute_fields:
  "volume (toggleMute s) = volume s"
  "audio_volume (toggleMute s) = (if 0 < audio_volume s then 0 else volume s)"
  by (simp_all add: toggleMute_def)

lemma handleKeyboard_volume:
  assumes "\<not> is_toggleMute (KeyDown tag key r)" "audio_volume s = volume s"
  shows "audio_volume (handleKeyboard tag key r s) = volume (handleKeyboard tag key r s)"
  using assms
  by (auto simp: handleKeyboard_def togglePlayPause_volume set_currentTime_volume playNext_volume
      playPrevious_volume modes_volume setVolume_fields Let_def)

lemma handleKeyboard_arrows:
  assumes "tag \<noteq> ''INPUT''" "tag \<noteq> ''TEXTAREA''" "key = ''ArrowUp'' \<or> key = ''ArrowDown''"
  shows "audio_volume (handleKeyboard tag key r s) = volume (handleKeyboard tag key r s)"
  using assms by (auto simp: handleKeyboard_def setVolume_fields Let_def)

lemma handleKeyboard_volume_ok:
  assumes "volume_ok s"
  shows "volume_ok (handleKeyboard tag key r s)"
  using assms unfolding volume_ok_def
  by (simp add: handleKeyboard_def togglePlayPause_volume set_currentTime_volume playNext_volume
      playPrevious_volume modes_volume setVolume_fields toggleMute_fields Let_def)

lemma handle_keeps_volumes:
  assumes "\<not> is_toggleMute e" "\<forall>v. e \<noteq> SetVolume v" "\<forall>tag key r. e \<noteq> KeyDown tag key r"
  shows "volume (handle e s) = volume s \<and> audio_volume (handle e s) = audio_volume s"
  using assms
  by (cases e)
     (simp_all add: loadTrack_fields playNext_volume playPrevious_volume handleTrackEnd_volume
       togglePlayPause_volume modes_volume playSettled_fields seek_def handleAudioError_def
       play_def pause_def audio_play_def showToast_def split: jsnum.split)

lemma handle_unmuted:
  assumes "audio_volume s = volume s" "\<not> is_toggleMute e"
  shows "audio_volume (handle e s) = volume (handle e s)"
proof (cases e)
  case (SetVolume v)
  then show ?thesis by (simp add: setVolume_fields)
next
  case (KeyDown tag key r)
  with assms show ?thesis by (simp add: handleKeyboard_volume del: is_toggleMute.simps)
next
  case ToggleMute
  with assms show ?thesis by simp
qed (use assms handle_keeps_volumes [of e s] in simp_all)

lemma volume_ok_handle:
  assumes "volume_ok s"
  shows "volume_ok (handle e s)"
proof (cases e)
  case (SetVolume v)
  then show ?thesis by (simp add: volume_ok_def setVolume_fields)
next
  case (KeyDown tag key r)
  with assms show ?thesis by (simp add: handleKeyboard_volume_ok)
next
  case ToggleMute
  with assms show ?thesis by (simp add: volume_ok_def toggleMute_fields)
qed (use assms handle_keeps_volumes [of e s] in \<open>simp_all add: volume_ok_def\<close>)

lemma volume_ok_run: "volume_ok s \<Longrightarrow> volume_ok (run es s)"
  unfolding run_def by (induction es arbitrary: s) (simp_all add: volume_ok_handle)

text \<open>
  C10. In every state the controller can reach, the element's volume is 0 or the stored
  volume. Every event keeps this; every event other than a mute toggle keeps the two
  equal when they are equal; \<open>setVolume\<close> and the arrow keys make them equal from any
  state, as the constructor does; \<open>toggleMute\<close> never writes the stored volume and sets
  the element to 0 when it is audible, to the stored volume otherwise.
\<close>

theorem volume_invariant:
  "volume_ok initial \<and> audio_volume initial = volume initial \<and>
   volume_ok (run es initial) \<and>
   (volume_ok s \<longrightarrow> volume_ok (handle e s)) \<and>
   (audio_volume s = volume s \<and> \<not> is_toggleMute e \<longrightarrow>
      audio_volume (handle e s) = volume (handle e s)) \<and>
   audio_volume (setVolume v s) = volume (setVolume v s) \<and>
   (tag \<noteq> ''INPUT'' \<and> tag \<noteq> ''TEXTAREA'' \<and> (key = ''ArrowUp'' \<or> key = ''ArrowDown'') \<longrightarrow>
      audio_volume (handleKeyboard tag key r s) = volume (handleKeyboard tag key r s)) \<and>
   volume (toggleMute s) = volume s \<and>
   (0 < audio_volume s \<longrightarrow> audio_volume (toggleMute s) = 0) \<and>
   (audio_volume s \<le> 0 \<longrightarrow> audio_volume (toggleMute s) = volume s)"
proof -
  have i: "volume_ok initial" "audio_volume initial = volume initial"
    by (simp_all add: volume_ok_def initial_def)
  have m: "volume (toggleMute s) = volume s"
    "0 < audio_volume s \<longrightarrow> audio_volume (toggleMute s) = 0"
    "audio_volume s \<le> 0 \<longrightarrow> audio_volume (toggleMute s) = volume s"
    by (simp_all add: toggleMute_fields)
  have v: "audio_volume (setVolume v s) = volume (setVolume v s)"
    by (simp add: setVolume_fields)
  from i m v volume_ok_run [OF i(1)] volume_ok_handle handle_unmuted handleKeyboard_arrows
  show ?thesis by blast
qed

theorem volume_invariant_witness:
  "volume_ok (run sample_session initial) \<and>
   audio_volume (handle (KeyDown ''BODY'' ''ArrowUp'' 0) initial) =
     volume (handle (KeyDown ''BODY'' ''ArrowUp'' 0) initial) \<and>
   audio_volume (toggleMute initial) = 0 \<and> volume (toggleMute initial) = 0.8 \<and>
   volume_ok (handle ToggleMute initial)"
proof -
  have a: "audio_volume initial = volume initial \<and> \<not> is_toggleMute (KeyDown ''BODY'' ''ArrowUp'' 0)"
    by (simp add: initial_def)
  have b: "0 < audio_volume initial" by (simp add: initial_def)
  have c: "volume initial = 0.8" by (simp add: initial_def)
  from volume_invariant [of sample_session initial "KeyDown ''BODY'' ''ArrowUp'' 0" _ "''BODY''" "''ArrowUp''"] a
  have 1: "volume_ok (run sample_session initial)"
    "audio_volume (handle (KeyDown ''BODY'' ''ArrowUp'' 0) initial) =
     volume (handle (KeyDown ''BODY'' ''ArrowUp'' 0) initial)"
    by blast+
  from volume_invariant [of sample_session initial ToggleMute _ "''BODY''" "''ArrowUp''"] b
  have 2: "audio_volume (toggleMute initial) = 0" "volume (toggleMute initial) = volume initial"
    "volume_ok (handle ToggleMute initial)"
    by blast+
  from 1 2 c show ?thesis by simp
qed

section \<open>Muting\<close>

lemma handleKeyboard_keeps_volume:
  assumes "\<not> sets_volume (KeyDown tag key r)"
  shows "volume (handleKeyboard tag key r s) = volume s"
  using assms
  by (auto simp: handleKeyboard_def togglePlayPause_volume set_currentTime_volume playNext_volume
      playPrevious_volume modes_volume toggleMute_fields)

lemma handle_keeps_volume:
  assumes "\<not> sets_volume e"
  shows "volume (handle e s) = volume s"
proof (cases e)
  case (SetVolume v)
  with assms show ?thesis by simp
next
  case (KeyDown tag key r)
  with assms show ?thesis by (simp add: handleKeyboard_keeps_volume del: sets_volume.simps)
next
  case ToggleMute
  then show ?thesis by (simp add: toggleMute_fields)
qed (use handle_keeps_volumes [of e s] in simp_all)

lemma run_keeps_volume:
  assumes "\<forall>e\<in>set es. \<not> sets_volume e"
  shows "volume (run es s) = volume s"
  using assms unfolding run_def
  by (induction es arbitrary: s) (simp_all add: handle_keeps_volume)

lemma audible_at_stored_volume:
  assumes "volume_ok s" "0 < audio_volume s"
  shows "audio_volume (toggleMute s) = 0" "volume (toggleMute s) = volume s"
    "audio_volume (toggleMute (toggleMute s)) = volume s"
    "volume (toggleMute (toggleMute s)) = volume s"
  using assms by (auto simp: volume_ok_def toggleMute_fields)

text \<open>
  C6. Let \<open>setVolume(v)\<close> be the last call that set the volume: any events that do not
  reach \<open>setVolume\<close> may have followed it, and anything may have come before it, a mute
  included. If the element is audible, the first \<open>toggleMute()\<close> sets it to 0 and leaves
  the stored volume, and the second brings it back to exactly the value \<open>setVolume(v)\<close>
  stored, \<open>v\<close> clamped to \<open>[0, 1]\<close>. In every state reached from the initial one with the
  element audible, two calls of \<open>toggleMute()\<close> bring the element back to the stored
  volume; right after \<open>setVolume(v)\<close> they do so whatever \<open>v\<close> is.
\<close>

theorem toggleMute_twice_restores:
  "((\<forall>e\<in>set es. \<not> sets_volume e) \<and> 0 < audio_volume (run es (setVolume v s)) \<longrightarrow>
      audio_volume (toggleMute (run es (setVolume v s))) = 0 \<and>
      volume (toggleMute (run es (setVolume v s))) = max 0 (min 1 v) \<and>
      audio_volume (toggleMute (toggleMute (run es (setVolume v s)))) = max 0 (min 1 v) \<and>
      volume (toggleMute (toggleMute (run es (setVolume v s)))) = max 0 (min 1 v)) \<and>
   (0 < audio_volume (run es initial) \<longrightarrow>
      audio_volume (toggleMute (run es initial)) = 0 \<and>
      volume (toggleMute (run es initial)) = volume (run es initial) \<and>
      audio_volume (toggleMute (toggleMute (run es initial))) = volume (run es initial)) \<and>
   audio_volume (toggleMute (toggleMute (setVolume v s))) = max 0 (min 1 v)"
proof (intro conjI impI)
  let ?t = "run es (setVolume v s)"
  assume h: "(\<forall>e\<in>set es. \<not> sets_volume e) \<and> 0 < audio_volume ?t"
  have "volume_ok (setVolume v s)" by (simp add: volume_ok_def setVolume_fields)
  then have ok: "volume_ok ?t" by (rule volume_ok_run)
  from h have st: "volume ?t = max 0 (min 1 v)"
    by (simp add: run_keeps_volume setVolume_fields)
  from h have au: "0 < audio_volume ?t" by simp
  show "audio_volume (toggleMute ?t) = 0"
    by (rule audible_at_stored_volume(1) [OF ok au])
  show "volume (toggleMute ?t) = max 0 (min 1 v)"
    using audible_at_stored_volume(2) [OF ok au] st by simp
  show "audio_volume (toggleMute (toggleMute ?t)) = max 0 (min 1 v)"
    using audible_at_stored_volume(3) [OF ok au] st by simp
  show "volume (toggleMute (toggleMute ?t)) = max 0 (min 1 v)"
    using audible_at_stored_volume(4) [OF ok au] st by simp
next
  let ?t = "run es initial"
  assume au: "0 < audio_volume ?t"
  have "volume_ok initial" by (simp add: volume_ok_def initial_def)
  then have ok: "volume_ok ?t" by (rule volume_ok_run)
  show "audio_volume (toggleMute ?t) = 0"
    by (rule audible_at_stored_volume(1) [OF ok au])
  show "volume (toggleMute ?t) = volume ?t"
    by (rule audible_at_stored_volume(2) [OF ok au])
  show "audio_volume (toggleMute (toggleMute ?t)) = volume ?t"
    by (rule audible_at_stored_volume(3) [OF ok au])
next
  show "audio_volume (toggleMute (toggleMute (setVolume v s))) = max 0 (min 1 v)"
    by (simp add: setVolume_fields toggleMute_fields)
qed

lemma muted_half_fields: "volume muted_half = 0.5" "audio_volume muted_half = 0"
  by (simp_all add: muted_half_def run_def setVolume_fields toggleMute_fields)

theorem toggleMute_twice_restores_witness:
  "audio_volume (toggleMute (run [PlayNext 0.5, ToggleShuffle] (setVolume 0.7 muted_half))) = 0 \<and>
   audio_volume (toggleMute (toggleMute
     (run [PlayNext 0.5, ToggleShuffle] (setVolume 0.7 muted_half)))) = 0.7 \<and>
   audio_volume (toggleMute (toggleMute (run [SetVolume 0.5] initial))) = 0.5 \<and>
   audio_volume (toggleMute (toggleMute (setVolume 0 initial))) = 0"
proof -
  let ?es = "[PlayNext 0.5, ToggleShuffle]"
  have a: "(\<forall>e\<in>set ?es. \<not> sets_volume e) \<and> 0 < audio_volume (run ?es (setVolume 0.7 muted_half))"
    by (simp add: run_def playNext_volume modes_volume setVolume_fields)
  have b: "0 < audio_volume (run [SetVolume 0.5] initial)" "volume (run [SetVolume 0.5] initial) = 0.5"
    by (simp_all add: run_def setVolume_fields)
  from toggleMute_twice_restores [where es = ?es and v = "0.7" and s = muted_half] a
  have 1: "audio_volume (toggleMute (run ?es (setVolume 0.7 muted_half))) = 0"
    "audio_volume (toggleMute (toggleMute (run ?es (setVolume 0.7 muted_half)))) = max 0 (min 1 0.7)"
    by blast+
  from toggleMute_twice_restores [where es = "[SetVolume 0.5]" and v = 0 and s = initial] b(1)
  have 2: "audio_volume (toggleMute (toggleMute (run [SetVolume 0.5] initial))) =
      volume (run [SetVolume 0.5] initial)"
    "audio_volume (toggleMute (toggleMute (setVolume 0 initial))) = max 0 (min 1 0)"
    by blast+
  from 1 2 b(2) show ?thesis by simp
qed

text \<open>Outside the condition of C6: while the element is muted and the stored volume is not
  0, the first call restores the stored volume and the second mutes again.\<close>

lemma toggleMute_twice_when_muted:
  assumes "audio_volume s = 0" "0 < volume s"
  shows "audio_volume (toggleMute s) = volume s" "audio_volume (toggleMute (toggleMute s)) = 0"
  using assms by (simp_all add: toggleMute_fields)

section \<open>The track-changed notification\<close>

lemma loadTrack_current_dispatched: "dispatched (loadTrack_current s) = dispatched s"
  by (simp add: loadTrack_current_def loadTrack_fields split: option.split)
     (simp add: op_defs)

lemma handle_dispatched:
  assumes "\<forall>i ok. e \<noteq> PlaySettled i ok"
  shows "dispatched (handle e s) = dispatched s"
proof (cases e)
  case (KeyDown tag key r)
  have "dispatched (set_currentTime t s) = dispatched s" for t by (cases t) simp_all
  then show ?thesis using KeyDown
    by (simp add: handleKeyboard_def playNext_def playPrevious_def loadTrack_current_dispatched
        togglePlayPause_def toggleShuffle_def cycleRepeatMode_def toggleMute_def setVolume_def
        play_def pause_def audio_play_def showToast_def Let_def)
qed (use assms in \<open>simp_all add: loadTrack_fields playNext_def playPrevious_def handleTrackEnd_def
    loadTrack_current_dispatched togglePlayPause_def toggleShuffle_def cycleRepeatMode_def
    toggleMute_def setVolume_def seek_def handleAudioError_def
    play_def pause_def audio_play_def showToast_def Let_def split: jsnum.split\<close>)

lemma playSettled_loadTrack:
  "dispatched (playSettled (length (pending s)) ok (loadTrack t q i s)) = dispatched s @ [Some t]"
  by (simp add: playSettled_def loadTrack_fields remove_nth_def play_resume_def
      loadTrack_resume_def showToast_def Let_def)

lemma playSettled_dispatched:
  "dispatched (playSettled j ok s) =
     dispatched s @ (if j < length (pending s) \<and> pending s ! j = InLoadTrack then [currentTrack s] else [])"
  by (simp add: playSettled_def play_resume_def loadTrack_resume_def showToast_def Let_def
      split: awaiting.split)

text \<open>
  C2, as the specification states it, fails: when \<open>loadTrack\<close> has set the new track and
  its play request is under way, no \<open>trackChanged\<close> event has been dispatched, and none is
  while the element reports its metadata and its progress.
\<close>

theorem loadTrack_no_notification_counterexample:
  "currentTrack (loadTrack track_A None 0 initial) = Some track_A \<and>
   pending (loadTrack track_A None 0 initial) = [InLoadTrack] \<and>
   dispatched (loadTrack track_A None 0 initial) = [] \<and>
   dispatched (run [LoadTrack track_A None 0, LoadedMetadata (Fin 200), TimeUpdate 1.5] initial) = []"
  by (simp add: run_def loadTrack_fields initial_def)

lemma run_dispatched:
  assumes "\<forall>e\<in>set es. \<forall>j ok. e \<noteq> PlaySettled j ok"
  shows "dispatched (run es s) = dispatched s"
  using assms unfolding run_def
  by (induction es arbitrary: s) (simp_all add: handle_dispatched)

lemma playSettled_older_load:
  "dispatched (playSettled (length (pending s)) ok (loadTrack t' q' i' (loadTrack t q i s))) =
     dispatched s @ [Some t']"
  "pending (playSettled (length (pending s)) ok (loadTrack t' q' i' (loadTrack t q i s))) =
     pending s @ [InLoadTrack]"
  by (simp_all add: playSettled_dispatched loadTrack_fields nth_append)
     (simp add: playSettled_def loadTrack_fields remove_nth_def play_resume_def
       loadTrack_resume_def showToast_def Let_def nth_append)

text \<open>
  C2, amended. A call of \<open>loadTrack\<close> dispatches no notification itself, and after it none
  is dispatched until a play request settles: no other event dispatches one. Each
  settling of a play request made by a \<open>loadTrack\<close> call, fulfilled or rejected, dispatches
  exactly one notification, with the track that is current at that moment; a settling of
  a request made by \<open>play()\<close> alone dispatches none. So when the call's own request is the
  next to settle, the notification carries the loaded track; when a newer \<open>loadTrack\<close> has
  come in between, the settling of the older request dispatches the newer track, while the
  newer request is still pending.
\<close>

theorem loadTrack_notifies_when_settled:
  "dispatched (loadTrack t q i s) = dispatched s \<and>
   pending (loadTrack t q i s) = pending s @ [InLoadTrack] \<and>
   ((\<forall>e\<in>set es. \<forall>j ok'. e \<noteq> PlaySettled j ok') \<longrightarrow>
      dispatched (run es (loadTrack t q i s)) = dispatched s) \<and>
   dispatched (playSettled j ok s) =
     dispatched s @ (if j < length (pending s) \<and> pending s ! j = InLoadTrack then [currentTrack s] else []) \<and>
   dispatched (playSettled (length (pending s)) ok (loadTrack t q i s)) = dispatched s @ [Some t] \<and>
   dispatched (playSettled (length (pending s)) ok (loadTrack t' q' i' (loadTrack t q i s))) =
     dispatched s @ [Some t'] \<and>
   pending (playSettled (length (pending s)) ok (loadTrack t' q' i' (loadTrack t q i s))) =
     pending s @ [InLoadTrack]"
proof -
  have r: "(\<forall>e\<in>set es. \<forall>j ok'. e \<noteq> PlaySettled j ok') \<longrightarrow>
      dispatched (run es (loadTrack t q i s)) = dispatched s"
    by (simp add: run_dispatched loadTrack_fields)
  from r playSettled_dispatched [of j ok s] playSettled_older_load [of s ok t' q' i' t q i]
  show ?thesis
    by (simp only: loadTrack_fields playSettled_loadTrack simp_thms)
qed

theorem loadTrack_notifies_when_settled_witness:
  "dispatched (run [LoadedMetadata (Fin 200), TimeUpdate 1.5, ToggleShuffle]
     (loadTrack track_A None 0 initial)) = [] \<and>
   dispatched (playSettled 0 False (loadTrack track_A None 0 initial)) = [Some track_A] \<and>
   dispatched (playSettled 0 True (loadTrack track_A None 0 initial)) = [Some track_A] \<and>
   dispatched (playSettled 0 True
     (loadTrack track_D None 0 (loadTrack track_B None 0 initial))) = [Some track_D]"
proof -
  let ?es = "[LoadedMetadata (Fin 200), TimeUpdate 1.5, ToggleShuffle]"
  have i: "pending initial = []" "dispatched initial = []" by (simp_all add: initial_def)
  have e: "\<forall>e\<in>set ?es. \<forall>j ok'. e \<noteq> PlaySettled j ok'" by simp
  from loadTrack_notifies_when_settled [where t = track_A and q = None and i = 0 and s = initial
      and es = ?es] e
  have 1: "dispatched (run ?es (loadTrack track_A None 0 initial)) = dispatched initial"
    by blast
  from loadTrack_notifies_when_settled [where t = track_A and q = None and i = 0 and s = initial
      and ok = False]
  have 2: "dispatched (playSettled (length (pending initial)) False (loadTrack track_A None 0 initial)) =
      dispatched initial @ [Some track_A]"
    by blast
  from loadTrack_notifies_when_settled [where t = track_A and q = None and i = 0 and s = initial
      and ok = True]
  have 3: "dispatched (playSettled (length (pending initial)) True (loadTrack track_A None 0 initial)) =
      dispatched initial @ [Some track_A]"
    by blast
  from loadTrack_notifies_when_settled [where t = track_B and q = None and i = 0 and s = initial
      and ok = True and t' = track_D and q' = None and i' = 0]
  have 4: "dispatched (playSettled (length (pending initial)) True
      (loadTrack track_D None 0 (loadTrack track_B None 0 initial))) = dispatched initial @ [Some track_D]"
    by blast
  from 1 2 3 4 show ?thesis by (simp add: i)
qed

section \<open>Superseded loads\<close>





section \<open>A rejected play request\<close>

lemma playing_A_fields:
  "isPlaying playing_A = True" "currentTrack playing_A = Some track_A" "pending playing_A = []"
  "toasts playing_A = []" "queue playing_A = [track_A]" "currentIndex playing_A = 0"
  by (simp_all add: playing_A_def run_def playSettled_def play_resume_def loadTrack_resume_def
      remove_nth_def loadTrack_fields loadTrack_None_fields initial_def Let_def)

text \<open>
  C1 at a state where track A is playing: \<open>play()\<close> is called, or track B is loaded, and the
  request is rejected. One error toast is shown and track, queue and index are as the
  call left them, but \<open>isPlaying\<close> is still true: the \<open>catch\<close> of \<open>play()\<close> does not write
  it, whereas \<open>handleAudioError\<close> pauses.
\<close>

theorem play_failure_keeps_isPlaying:
  "mode_of playing_A = LoadedPlaying \<and>
   isPlaying (run [Play, PlaySettled 0 False] playing_A) = True \<and>
   mode_of (run [Play, PlaySettled 0 False] playing_A) = LoadedPlaying \<and>
   toasts (run [Play, PlaySettled 0 False] playing_A) = [(''Error playing audio'', ''error'')] \<and>
   isPlaying (run [LoadTrack track_B None 0, PlaySettled 0 False] playing_A) = True \<and>
   currentTrack (run [LoadTrack track_B None 0, PlaySettled 0 False] playing_A) = Some track_B \<and>
   mode_of (run [LoadTrack track_B None 0, PlaySettled 0 False] playing_A) = LoadedPlaying \<and>
   isPlaying (handle AudioError playing_A) = False"
  by (simp add: run_def mode_of_def playSettled_def play_resume_def loadTrack_resume_def
      remove_nth_def loadTrack_fields loadTrack_None_fields playing_A_fields
      handleAudioError_def play_def pause_def audio_play_def showToast_def Let_def)

text \<open>From a paused state the rejection leaves the controller as C1 describes.\<close>

lemma play_failure_when_paused:
  assumes "currentTrack s \<noteq> None" "\<not> isPlaying s"
  shows "mode_of (playSettled (length (pending s)) False (play s)) = LoadedPaused"
    and "toasts (playSettled (length (pending s)) False (play s)) =
           toasts s @ [(''Error playing audio'', ''error'')]"
    and "currentTrack (playSettled (length (pending s)) False (play s)) = currentTrack s"
    and "queue (playSettled (length (pending s)) False (play s)) = queue s"
    and "currentIndex (playSettled (length (pending s)) False (play s)) = currentIndex s"
  using assms
  by (simp_all add: mode_of_def playSettled_def play_resume_def remove_nth_def play_def
      audio_play_def showToast_def Let_def)

end
